theory Spec2Isabelle
  imports Main
begin

section \<open>Category resolution of search-graphql (node/resolvers/search/utils.ts)\<close>

subsection \<open>Strings\<close>

text \<open>
  JavaScript strings are modelled as \<^typ>\<open>string\<close>, the bytes of their UTF-8 form. The
  separator \<open>/\<close> is ASCII, so splitting at it is the same on bytes and on UTF-16 code
  units, and so is the suffix test on well-formed strings.
\<close>

text \<open>
  \<open>split(sep)\<close> of ramda is \<open>String.prototype.split\<close>: the pieces between the
  separators, in order; a string without separator (also the empty one) is one piece.
\<close>

fun split_sep :: "char \<Rightarrow> string \<Rightarrow> string list" where
  "split_sep sep [] = [[]]"
| "split_sep sep (c # cs) =
     (if c = sep then [] # split_sep sep cs
      else (c # hd (split_sep sep cs)) # tl (split_sep sep cs))"

text \<open>\<open>const lastSegment = compose(last, split('/'))\<close>\<close>

definition lastSegment :: "string \<Rightarrow> string" where
  "lastSegment s = last (split_sep CHR ''/'' s)"

text \<open>\<open>String.prototype.endsWith\<close>\<close>

definition endsWith :: "string \<Rightarrow> string \<Rightarrow> bool" where
  "endsWith s suf =
     (length suf \<le> length s \<and> drop (length s - length suf) s = suf)"

subsection \<open>Data model\<close>

text \<open>
  \<open>CategoryTreeResponse\<close>: the fields the module reads, \<open>id\<close>, \<open>url\<close> and
  \<open>children\<close>. The selector of \<open>id\<close> is \<open>id_cat\<close>, since \<open>id\<close> is the identity of HOL.
\<close>

datatype CategoryTreeResponse =
  CategoryTreeResponse (id_cat: int) (url: string) (children: "CategoryTreeResponse list")

text \<open>
  Reading \<open>values[index]\<close> beyond the array gives \<open>undefined\<close>, and
  \<open>undefined.toUpperCase()\<close> throws a \<open>TypeError\<close>. \<open>BackendError\<close> stands for a
  rejected promise of the search client.
\<close>

datatype Error = TypeError | BackendError string

subsection \<open>The functions of the host and of utils/slug\<close>

text \<open>
  \<open>String.prototype.toUpperCase\<close> and ramda's \<open>toLower\<close>
  (\<open>String.prototype.toLowerCase\<close>) are the case mappings of Unicode, and
  \<open>searchSlugify\<close> and \<open>Slugify\<close> come from \<open>utils/slug\<close>. The four are parameters of
  the model, any functions on strings: what is proved below holds for every choice of
  them, so for the mappings of the host too.
\<close>

record Externals =
  toUpperCase :: "string \<Rightarrow> string"
  toLower :: "string \<Rightarrow> string"
  searchSlugify :: "string \<Rightarrow> string"
  Slugify :: "string \<Rightarrow> string"

text \<open>
  On a string of ASCII characters the case mappings of the host change the letters
  \<open>a\<close> to \<open>z\<close>, or \<open>A\<close> to \<open>Z\<close>, and nothing else. These two functions are their
  values there; the examples below, which are ASCII, run with them.
\<close>

definition asciiUpperChar :: "char \<Rightarrow> char" where
  "asciiUpperChar c =
     (let n = (of_char c :: nat) in if 97 \<le> n \<and> n \<le> 122 then char_of (n - 32) else c)"

definition asciiLowerChar :: "char \<Rightarrow> char" where
  "asciiLowerChar c =
     (let n = (of_char c :: nat) in if 65 \<le> n \<and> n \<le> 90 then char_of (n + 32) else c)"

definition asciiHost :: "(string \<Rightarrow> string) \<Rightarrow> (string \<Rightarrow> string) \<Rightarrow> Externals" where
  "asciiHost searchStyle genericStyle =
     \<lparr>toUpperCase = map asciiUpperChar, toLower = map asciiLowerChar,
      searchSlugify = searchStyle, Slugify = genericStyle\<rparr>"

subsection \<open>findCategoryInTree\<close>

text \<open>
  The \<open>for\<close> loop over \<open>tree\<close> is the recursion on the list; the result is \<open>Inr None\<close>
  for \<open>null\<close>, \<open>Inr (Some node)\<close> for a node and \<open>Inl TypeError\<close> where
  \<open>values[index]\<close> is \<open>undefined\<close>. The index is a natural number: the default
  \<open>index = 0\<close> of the exported function is the call with index \<open>0\<close>, and the recursion
  only adds one.
\<close>

function findCategoryInTree ::
  "Externals \<Rightarrow> CategoryTreeResponse list \<Rightarrow> string list \<Rightarrow> nat
     \<Rightarrow> Error + CategoryTreeResponse option"
where
  "findCategoryInTree ext [] values index = Inr None"
| "findCategoryInTree ext (node # rest) values index =
     (let slug = lastSegment (url node) in
      if length values \<le> index then Inl TypeError
      else if toUpperCase ext slug = toUpperCase ext (values ! index) then
        (if int index = int (length values) - 1 then Inr (Some node)
         else findCategoryInTree ext (children node) values (index + 1))
      else findCategoryInTree ext rest values index)"
  by pat_completeness auto
termination
proof (relation "measure (\<lambda>(ext, tree, path, i). size_list size tree)", goal_cases)
  case 1
  show ?case by simp
next
  case (2 ext node rest path i)
  show ?case by (cases node) simp
next
  case (3 ext node rest path i)
  show ?case by simp
qed

text \<open>
  The words of the specification about \<open>findCategoryInTree\<close>. A node matches a path
  segment when the final \<open>/\<close>-delimited segment of its URL equals the segment after
  upper-casing both. A slug path traces a chain to \<open>d\<close> in a tree when its first segment
  matches some node of the top level, the next one some child of that node, and so on,
  the last segment matching \<open>d\<close>.
\<close>

definition slugMatches :: "Externals \<Rightarrow> CategoryTreeResponse \<Rightarrow> string \<Rightarrow> bool" where
  "slugMatches ext node v = (toUpperCase ext (lastSegment (url node)) = toUpperCase ext v)"

fun tracesChain ::
  "Externals \<Rightarrow> CategoryTreeResponse list \<Rightarrow> string list \<Rightarrow> CategoryTreeResponse \<Rightarrow> bool"
where
  "tracesChain ext tree [] d = False"
| "tracesChain ext tree [v] d = (d \<in> set tree \<and> slugMatches ext d v)"
| "tracesChain ext tree (v # w # vs) d =
     (\<exists>node \<in> set tree. slugMatches ext node v \<and> tracesChain ext (children node) (w # vs) d)"

text \<open>
  A node is the first match of a segment among its siblings when it stands at some
  position of the level, matches the segment, and no node at an earlier position does.
  A chain of first matches is a chain each of whose nodes is the first match of its
  segment among its siblings; later siblings may match as well.
\<close>

definition firstMatch ::
  "Externals \<Rightarrow> CategoryTreeResponse list \<Rightarrow> string \<Rightarrow> CategoryTreeResponse \<Rightarrow> bool"
where
  "firstMatch ext tree v node =
     (\<exists>i \<in> set [0..<length tree].
        tree ! i = node \<and> slugMatches ext node v
        \<and> (\<forall>j \<in> set [0..<i]. \<not> slugMatches ext (tree ! j) v))"

fun tracesFirstChain ::
  "Externals \<Rightarrow> CategoryTreeResponse list \<Rightarrow> string list \<Rightarrow> CategoryTreeResponse \<Rightarrow> bool"
where
  "tracesFirstChain ext tree [] d = False"
| "tracesFirstChain ext tree [v] d = firstMatch ext tree v d"
| "tracesFirstChain ext tree (v # w # vs) d =
     (\<exists>node \<in> set tree.
        firstMatch ext tree v node \<and> tracesFirstChain ext (children node) (w # vs) d)"

subsection \<open>buildCategoryMap and appendToMap\<close>

text \<open>
  \<open>CategoryMap = Record<string, CategoryTreeResponse>\<close>, indexed by \<open>category.id\<close>: a
  map from identifiers. \<open>reduce(f, init)\<close> is \<^const>\<open>foldl\<close>. The assignment
  \<open>mapCategories[category.id] = category\<close> is the update of the accumulator, which then
  goes through the children.
\<close>

type_synonym CategoryMap = "int \<rightharpoonup> CategoryTreeResponse"

function appendToMap :: "CategoryMap \<Rightarrow> CategoryTreeResponse \<Rightarrow> CategoryMap" where
  "appendToMap mapCategories category =
     foldl appendToMap (mapCategories(id_cat category \<mapsto> category)) (children category)"
  by pat_completeness auto
termination
proof (relation "measure (\<lambda>(mapCategories, category). size category)")
  show "wf (measure (\<lambda>(mapCategories :: CategoryMap, category :: CategoryTreeResponse).
          size category))"
    by simp
next
  fix mapCategories :: CategoryMap and category :: CategoryTreeResponse
    and m :: CategoryMap and child :: CategoryTreeResponse
  assume "child \<in> set (children category)"
  then have "size child < size category"
    by (cases category) (auto simp: less_Suc_eq_le size_list_estimation')
  then show "((m, child), mapCategories, category)
          \<in> measure (\<lambda>(mapCategories, category). size category)"
    by simp
qed

definition buildCategoryMap :: "CategoryTreeResponse list \<Rightarrow> CategoryMap" where
  "buildCategoryMap categoryTree = foldl appendToMap Map.empty categoryTree"

text \<open>
  The depth-first pre-order of the specification: a node, then the nodes below it, then
  its later siblings.
\<close>

function preorder :: "CategoryTreeResponse list \<Rightarrow> CategoryTreeResponse list" where
  "preorder [] = []"
| "preorder (node # rest) = node # preorder (children node) @ preorder rest"
  by pat_completeness auto
termination
proof (relation "measure (size_list size)")
  show "wf (measure (size_list size :: CategoryTreeResponse list \<Rightarrow> nat))"
    by simp
next
  fix node :: CategoryTreeResponse and rest :: "CategoryTreeResponse list"
  show "(children node, node # rest) \<in> measure (size_list size)"
    by (cases node) simp
  show "(rest, node # rest) \<in> measure (size_list size)"
    by simp
qed

subsection \<open>The collaborators\<close>

text \<open>
  \<open>CategoryArgs\<close>: three optional strings; \<open>None\<close> is an absent field. A field is
  truthy when it is present and not the empty string.
\<close>

record CategoryArgs =
  department :: "string option"
  category :: "string option"
  subcategory :: "string option"

definition truthy :: "string option \<Rightarrow> bool" where
  "truthy s = (case s of None \<Rightarrow> False | Some str \<Rightarrow> str \<noteq> [])"

text \<open>
  The result of \<open>search.pageType\<close>: the fields read here, \<open>id\<close> and \<open>pageType\<close>.
\<close>

record PageTypeResult =
  id_page :: int
  pageType :: string

text \<open>
  The search client \<open>Context['clients']['search']\<close>: each method returns a promise,
  rejected (\<open>Inl\<close>) or resolved (\<open>Inr\<close>); \<open>pageType\<close> may resolve to nothing.
\<close>

record SearchClient =
  search_pageType :: "string \<Rightarrow> Error + PageTypeResult option"
  search_categories :: "int \<Rightarrow> Error + CategoryTreeResponse list"

text \<open>
  What a call does to the outside, in order: the requests to the search client and the
  objects given to \<open>logger.info\<close>. A function with effects returns the list of its
  events and its result, \<open>Inl\<close> for a rejection. The logged message
  \<open>category ${url}, args ${JSON.stringify(args)}\<close> is kept as the two values it is
  formatted from, \<open>url\<close> and \<open>args\<close>, followed by the \<open>name\<close> of the event.
\<close>

datatype Event =
  PageTypeCall string
| CategoriesCall int
| LoggerInfo string "CategoryArgs" string

subsection \<open>getIdFromTree\<close>

datatype Entity = Entity_category | Entity_department | Entity_subcategory

fun args_entity :: "CategoryArgs \<Rightarrow> Entity \<Rightarrow> string option" where
  "args_entity args Entity_category = category args"
| "args_entity args Entity_department = department args"
| "args_entity args Entity_subcategory = subcategory args"

definition compareGenericSlug ::
  "Externals \<Rightarrow> CategoryArgs \<Rightarrow> Entity \<Rightarrow> string \<Rightarrow> bool"
where
  "compareGenericSlug ext args entity u =
     (case args_entity args entity of
        None \<Rightarrow> False
      | Some slug \<Rightarrow>
          if slug = [] then False
          else endsWith u (CHR ''/'' # toLower ext (searchSlugify ext slug))
             \<or> endsWith u (CHR ''/'' # toLower ext (Slugify ext slug)))"

definition getIdFromTree ::
  "Externals \<Rightarrow> CategoryArgs \<Rightarrow> SearchClient \<Rightarrow> Event list \<times> (Error + int option)"
where
  "getIdFromTree ext args search =
     (if truthy (department args) then
        (case search_categories search 3 of
           Inl e \<Rightarrow> ([CategoriesCall 3], Inl e)
         | Inr departments \<Rightarrow>
             let found0 = find (\<lambda>d. compareGenericSlug ext args Entity_department (url d))
                            departments;
                 found1 = (case found0 of
                             Some f \<Rightarrow>
                               if truthy (category args)
                               then find (\<lambda>c. compareGenericSlug ext args Entity_category (url c))
                                      (children f)
                               else found0
                           | None \<Rightarrow> found0);
                 found2 = (case found1 of
                             Some f \<Rightarrow>
                               if truthy (subcategory args)
                               then find (\<lambda>c. compareGenericSlug ext args Entity_subcategory (url c))
                                      (children f)
                               else found1
                           | None \<Rightarrow> found1)
             in ([CategoriesCall 3],
                 Inr (case found2 of Some f \<Rightarrow> Some (id_cat f) | None \<Rightarrow> None)))
      else ([], Inr None))"

subsection \<open>searchContextGetCategory\<close>

definition typesPossible :: "string list" where
  "typesPossible = [''Department'', ''Category'', ''SubCategory'']"

text \<open>\<open>Array.prototype.join\<close>\<close>

fun join :: "string \<Rightarrow> string list \<Rightarrow> string" where
  "join sep [] = []"
| "join sep [x] = x"
| "join sep (x # y # ys) = x @ sep @ join sep (y # ys)"

text \<open>
  The path given to the classification:
  \<open>[department, category, subcategory].filter(Boolean).map(str => searchSlugify(str!)).join('/')\<close>
\<close>

definition categoryUrl :: "Externals \<Rightarrow> CategoryArgs \<Rightarrow> string" where
  "categoryUrl ext args =
     join ''/'' (map (\<lambda>str. searchSlugify ext (the str))
       (filter truthy [department args, category args, subcategory args]))"

text \<open>
  \<open>search.pageType(url).catch(() => null)\<close> turns a rejection into \<open>null\<close>: this is
  \<open>response\<close>, the constant \<open>pageType\<close> of the source. The first \<open>if\<close> logs the event
  when it is \<open>null\<close>; the second one returns what \<open>getIdFromTree\<close> returns when it is
  \<open>null\<close> or its label is not in \<open>typesPossible\<close>; otherwise its \<open>id\<close> is returned.
\<close>

definition searchContextGetCategory ::
  "Externals \<Rightarrow> CategoryArgs \<Rightarrow> SearchClient \<Rightarrow> bool \<Rightarrow> Event list \<times> (Error + int option)"
where
  "searchContextGetCategory ext args search isVtex =
     (if \<not> isVtex then getIdFromTree ext args search
      else if \<not> truthy (department args) \<and> \<not> truthy (category args)
              \<and> \<not> truthy (subcategory args)
      then ([], Inr None)
      else
        let u = categoryUrl ext args;
            response = (case search_pageType search u of Inl e \<Rightarrow> None | Inr r \<Rightarrow> r);
            logged = (if response = None
                      then [LoggerInfo u args ''pagetype-category-error''] else []);
            fallback = (let (events, result) = getIdFromTree ext args search
                        in (PageTypeCall u # logged @ events, result))
        in case response of
             None \<Rightarrow> fallback
           | Some p \<Rightarrow>
               if pageType p \<notin> set typesPossible then fallback
               else (PageTypeCall u # logged, Inr (Some (id_page p))))"

subsection \<open>getCategoryInfo\<close>

text \<open>
  The result is a node of the tree or the object \<open>{ url: '' }\<close>, which has no other
  field.
\<close>

datatype CategoryInfo = Category CategoryTreeResponse | UrlOnly string

definition getCategoryInfo ::
  "SearchClient \<Rightarrow> int \<Rightarrow> int \<Rightarrow> Event list \<times> (Error + CategoryInfo)"
where
  "getCategoryInfo search ident levels =
     (case search_categories search levels of
        Inl e \<Rightarrow> ([CategoriesCall levels], Inl e)
      | Inr categories \<Rightarrow>
          let mapCategories = foldl appendToMap Map.empty categories
          in ([CategoriesCall levels],
              Inr (case mapCategories ident of
                     Some c \<Rightarrow> Category c
                   | None \<Rightarrow> UrlOnly '''')))"

section \<open>Properties of the tree search\<close>

lemma findCategoryInTree_total:
  "i < length path \<Longrightarrow> \<exists>r. findCategoryInTree ext tree path i = Inr r"
proof (induction ext tree path i rule: findCategoryInTree.induct)
  case (1 ext path i)
  show ?case by simp
next
  case (2 ext node rest path i)
  show ?case
  proof (cases "toUpperCase ext (lastSegment (url node)) = toUpperCase ext (path ! i)")
    case False
    with 2 show ?thesis by simp
  next
    case match: True
    show ?thesis
    proof (cases "int i = int (length path) - 1")
      case True
      with 2 match show ?thesis by simp
    next
      case False
      with 2(3) have "i + 1 < length path" by linarith
      with 2 match False show ?thesis by simp
    qed
  qed
qed

lemma findCategoryInTree_sound:
  "findCategoryInTree ext tree path i = Inr (Some d) \<Longrightarrow>
   tracesChain ext tree (drop i path) d"
proof (induction ext tree path i rule: findCategoryInTree.induct)
  case (1 ext path i)
  then show ?case by simp
next
  case (2 ext node rest path i)
  from 2(3) have lt: "i < length path"
    by (auto simp: Let_def split: if_splits)
  then have dr: "drop i path = path ! i # drop (Suc i) path"
    by (simp add: Cons_nth_drop_Suc)
  show ?case
  proof (cases "toUpperCase ext (lastSegment (url node)) = toUpperCase ext (path ! i)")
    case False
    with 2 lt have "tracesChain ext rest (drop i path) d" by simp
    then show ?thesis
      unfolding dr by (cases "drop (Suc i) path") auto
  next
    case match: True
    show ?thesis
    proof (cases "int i = int (length path) - 1")
      case True
      with lt have "drop (Suc i) path = []" by simp
      moreover from 2(3) lt match True have "d = node" by simp
      ultimately show ?thesis
        unfolding dr using match by (simp add: slugMatches_def)
    next
      case False
      with lt have lt': "Suc i < length path" by linarith
      from 2(3) lt match False
      have "findCategoryInTree ext (children node) path (i + 1) = Inr (Some d)" by simp
      with 2(1) lt match False
      have "tracesChain ext (children node) (drop (i + 1) path) d" by simp
      moreover from lt' have "drop (Suc i) path = path ! Suc i # drop (Suc (Suc i)) path"
        by (simp add: Cons_nth_drop_Suc)
      ultimately show ?thesis
        unfolding dr using match by (auto simp: slugMatches_def)
    qed
  qed
qed

lemma findCategoryInTree_first:
  assumes "i < length path"
    and "\<forall>n \<in> set before. \<not> slugMatches ext n (path ! i)"
    and "slugMatches ext node (path ! i)"
  shows "findCategoryInTree ext (before @ node # after) path i =
     (if Suc i = length path then Inr (Some node)
      else findCategoryInTree ext (children node) path (Suc i))"
  using assms
proof (induction before)
  case Nil
  then show ?case by (auto simp: slugMatches_def)
next
  case (Cons a before)
  then show ?case by (simp add: slugMatches_def)
qed

lemma firstMatch_split:
  assumes "firstMatch ext tree v node"
  obtains before after where "tree = before @ node # after"
    and "\<forall>n \<in> set before. \<not> slugMatches ext n v" and "slugMatches ext node v"
proof -
  from assms obtain i where i: "i < length tree" "tree ! i = node"
    and m: "slugMatches ext node v"
    and e: "\<forall>j < i. \<not> slugMatches ext (tree ! j) v"
    by (auto simp: firstMatch_def)
  from i have "tree = take i tree @ node # drop (Suc i) tree"
    using id_take_nth_drop [of i tree] by simp
  moreover have "\<forall>n \<in> set (take i tree). \<not> slugMatches ext n v"
  proof
    fix n assume "n \<in> set (take i tree)"
    then obtain j where "j < length (take i tree)" "take i tree ! j = n"
      by (auto simp: in_set_conv_nth)
    with e i show "\<not> slugMatches ext n v" by auto
  qed
  ultimately show ?thesis using m that by blast
qed

lemma firstMatch_member:
  "firstMatch ext tree v node \<Longrightarrow> node \<in> set tree \<and> slugMatches ext node v"
  by (auto simp: firstMatch_def)

lemma tracesFirstChain_tracesChain:
  "tracesFirstChain ext tree path d \<Longrightarrow> tracesChain ext tree path d"
  by (induction ext tree path d rule: tracesFirstChain.induct)
     (auto dest: firstMatch_member)

lemma findCategoryInTree_first_chain:
  "i < length path \<Longrightarrow> tracesFirstChain ext tree (drop i path) d \<Longrightarrow>
   findCategoryInTree ext tree path i = Inr (Some d)"
proof (induction "length path - i" arbitrary: i tree)
  case 0
  then show ?case by simp
next
  case (Suc k)
  from Suc.prems(1) have dr: "drop i path = path ! i # drop (Suc i) path"
    by (simp add: Cons_nth_drop_Suc)
  show ?case
  proof (cases "Suc i = length path")
    case True
    then have "drop (Suc i) path = []" by simp
    with Suc.prems(2) dr have "firstMatch ext tree (path ! i) d" by simp
    then obtain before after where "tree = before @ d # after"
      and "\<forall>n \<in> set before. \<not> slugMatches ext n (path ! i)"
      and "slugMatches ext d (path ! i)"
      by (rule firstMatch_split)
    with Suc.prems(1) True show ?thesis
      by (simp add: findCategoryInTree_first)
  next
    case False
    with Suc.prems(1) have lt': "Suc i < length path" by simp
    then have dr': "drop (Suc i) path = path ! Suc i # drop (Suc (Suc i)) path"
      by (simp add: Cons_nth_drop_Suc)
    from Suc.prems(2) obtain node where fm: "firstMatch ext tree (path ! i) node"
      and below: "tracesFirstChain ext (children node) (drop (Suc i) path) d"
      unfolding dr dr' by auto
    from Suc.hyps(2) have "k = length path - Suc i" by simp
    from Suc.hyps(1) [OF this lt' below]
    have rec: "findCategoryInTree ext (children node) path (Suc i) = Inr (Some d)" .
    from fm obtain before after where "tree = before @ node # after"
      and "\<forall>n \<in> set before. \<not> slugMatches ext n (path ! i)"
      and "slugMatches ext node (path ! i)"
      by (rule firstMatch_split)
    with Suc.prems(1) False rec show ?thesis
      by (simp add: findCategoryInTree_first)
  qed
qed

section \<open>The claims about findCategoryInTree\<close>

text \<open>
  Claim C1, as amended. For every tree and every slug path that traces a chain from a
  top-level node down to a node \<open>d\<close>, each node of the chain being the first of its
  siblings in source order whose slug matches the segment of its level,
  \<open>findCategoryInTree\<close> returns \<open>d\<close>; a level is matched by the equality of the
  upper-cased last \<open>/\<close>-delimited segment of the node's URL and the upper-cased path
  segment of that level. Siblings after a node of the chain may have the same slug.
\<close>

theorem findCategoryInTree_finds_chain:
  assumes "tracesFirstChain ext tree values d"
  shows "tracesChain ext tree values d
       \<and> findCategoryInTree ext tree values 0 = Inr (Some d)"
proof -
  from assms have "values \<noteq> []" by auto
  with assms have "findCategoryInTree ext tree values 0 = Inr (Some d)"
    using findCategoryInTree_first_chain [of 0 "values" ext tree d] by simp
  with assms show ?thesis by (simp add: tracesFirstChain_tracesChain)
qed

text \<open>
  The path shoes, sneakers in a tree with three departments, the last of which has the
  slug of the second: the node found is the second child of the second department,
  identifier 2.
\<close>

theorem findCategoryInTree_finds_chain_witness:
  "tracesFirstChain (asciiHost (\<lambda>s. s) (\<lambda>s. s))
     [CategoryTreeResponse 9 ''/toys'' [],
      CategoryTreeResponse 1 ''/shoes''
        [CategoryTreeResponse 4 ''/shoes/boots'' [],
         CategoryTreeResponse 2 ''/shoes/sneakers'' []],
      CategoryTreeResponse 5 ''/SHOES'' [CategoryTreeResponse 6 ''/SHOES/sneakers'' []]]
     [''shoes'', ''sneakers''] (CategoryTreeResponse 2 ''/shoes/sneakers'' [])
   \<and> findCategoryInTree (asciiHost (\<lambda>s. s) (\<lambda>s. s))
     [CategoryTreeResponse 9 ''/toys'' [],
      CategoryTreeResponse 1 ''/shoes''
        [CategoryTreeResponse 4 ''/shoes/boots'' [],
         CategoryTreeResponse 2 ''/shoes/sneakers'' []],
      CategoryTreeResponse 5 ''/SHOES'' [CategoryTreeResponse 6 ''/SHOES/sneakers'' []]]
     [''shoes'', ''sneakers''] 0 = Inr (Some (CategoryTreeResponse 2 ''/shoes/sneakers'' []))
   \<and> id_cat (CategoryTreeResponse 2 ''/shoes/sneakers'' []) = 2"
proof -
  have chain: "tracesFirstChain (asciiHost (\<lambda>s. s) (\<lambda>s. s))
     [CategoryTreeResponse 9 ''/toys'' [],
      CategoryTreeResponse 1 ''/shoes''
        [CategoryTreeResponse 4 ''/shoes/boots'' [],
         CategoryTreeResponse 2 ''/shoes/sneakers'' []],
      CategoryTreeResponse 5 ''/SHOES'' [CategoryTreeResponse 6 ''/SHOES/sneakers'' []]]
     [''shoes'', ''sneakers''] (CategoryTreeResponse 2 ''/shoes/sneakers'' [])"
    by code_simp
  from findCategoryInTree_finds_chain [OF chain] chain
  show ?thesis by simp
qed

text \<open>
  Claim C1 as it is written, for every tree, fails where two siblings have the same
  slug: the path traces the chain through the second sibling, the search descends into
  the first one and answers \<open>null\<close>.
\<close>

theorem findCategoryInTree_chain_counterexample:
  "tracesChain (asciiHost (\<lambda>s. s) (\<lambda>s. s))
     [CategoryTreeResponse 1 ''/shoes'' [],
      CategoryTreeResponse 2 ''/Shoes'' [CategoryTreeResponse 3 ''/Shoes/sneakers'' []]]
     [''Shoes'', ''sneakers'']
     (CategoryTreeResponse 3 ''/Shoes/sneakers'' [])
   \<and> findCategoryInTree (asciiHost (\<lambda>s. s) (\<lambda>s. s))
     [CategoryTreeResponse 1 ''/shoes'' [],
      CategoryTreeResponse 2 ''/Shoes'' [CategoryTreeResponse 3 ''/Shoes/sneakers'' []]]
     [''Shoes'', ''sneakers''] 0 = Inr None"
  by code_simp

text \<open>
  Claim C2, as amended. For every tree and every non-empty slug path (and for the empty
  tree with any path) \<open>findCategoryInTree\<close> returns a value and does not throw; when
  the path traces no chain in the tree, the value is \<open>null\<close>.
\<close>

theorem findCategoryInTree_not_found:
  assumes "tree = [] \<or> values \<noteq> []"
  shows "(\<exists>r. findCategoryInTree ext tree values 0 = Inr r)
       \<and> ((\<forall>d. \<not> tracesChain ext tree values d)
            \<longrightarrow> findCategoryInTree ext tree values 0 = Inr None)"
proof (cases "tree = []")
  case True
  then show ?thesis by simp
next
  case False
  with assms have "0 < length values" by simp
  then obtain r where r: "findCategoryInTree ext tree values 0 = Inr r"
    using findCategoryInTree_total by blast
  have "r = None" if "\<forall>d. \<not> tracesChain ext tree values d"
  proof (cases r)
    case None
    then show ?thesis .
  next
    case (Some d)
    with r have "tracesChain ext tree (drop 0 values) d"
      by (intro findCategoryInTree_sound) simp
    with that show ?thesis by simp
  qed
  with r show ?thesis by simp
qed

theorem findCategoryInTree_not_found_witness:
  "(\<forall>d. \<not> tracesChain (asciiHost (\<lambda>s. s) (\<lambda>s. s))
      [CategoryTreeResponse 1 ''/shoes'' [CategoryTreeResponse 2 ''/shoes/sneakers'' []]]
      [''shoes'', ''boots''] d)
   \<and> findCategoryInTree (asciiHost (\<lambda>s. s) (\<lambda>s. s))
     [CategoryTreeResponse 1 ''/shoes'' [CategoryTreeResponse 2 ''/shoes/sneakers'' []]]
     [''shoes'', ''boots''] 0 = Inr None"
proof -
  let ?ext = "asciiHost (\<lambda>s. s) (\<lambda>s. s)"
  let ?tree = "[CategoryTreeResponse 1 ''/shoes'' [CategoryTreeResponse 2 ''/shoes/sneakers'' []]]"
  have nonempty: "?tree = [] \<or> [''shoes'', ''boots''] \<noteq> []" by simp
  have "\<not> slugMatches ?ext (CategoryTreeResponse 2 ''/shoes/sneakers'' []) ''boots''"
    by code_simp
  then have nochain: "\<forall>d. \<not> tracesChain ?ext ?tree [''shoes'', ''boots''] d"
    by simp
  from findCategoryInTree_not_found [OF nonempty, of ?ext] nochain show ?thesis by blast
qed

text \<open>
  Claim C2 as it is written, for any slug path, fails at the empty path on a tree that
  has a node: \<open>values[0]\<close> is \<open>undefined\<close> and \<open>toUpperCase\<close> throws.
\<close>

theorem findCategoryInTree_empty_path_counterexample:
  "findCategoryInTree (asciiHost (\<lambda>s. s) (\<lambda>s. s))
     [CategoryTreeResponse 1 ''/shoes'' []] [] 0 = Inl TypeError"
  by simp

text \<open>
  Claim C3. The search descends along one path only. At a level, the first node in
  source order whose slug matches the segment decides the result: it is that node at the
  last segment, and otherwise the result of the search below that node, whatever the
  later siblings are. So when the search below it fails, the whole search returns
  \<open>null\<close>, also when a later sibling matches and has the rest of the path below it.
\<close>

theorem findCategoryInTree_no_backtracking:
  assumes "index < length values"
    and "\<forall>n \<in> set before. \<not> slugMatches ext n (values ! index)"
    and "slugMatches ext node (values ! index)"
  shows "findCategoryInTree ext (before @ node # after) values index =
     (if int index = int (length values) - 1 then Inr (Some node)
      else findCategoryInTree ext (children node) values (index + 1))"
proof -
  from assms(1) have "(int index = int (length values) - 1) = (Suc index = length values)"
    by auto
  with findCategoryInTree_first [OF assms] show ?thesis by simp
qed

text \<open>
  Two departments with the same slug after a department with another one: the search
  through the three returns \<open>null\<close>, since the first of the two has no children; the
  search through the second of the two alone finds the node.
\<close>

theorem findCategoryInTree_no_backtracking_witness:
  "findCategoryInTree (asciiHost (\<lambda>s. s) (\<lambda>s. s))
     ([CategoryTreeResponse 9 ''/toys'' []]
      @ CategoryTreeResponse 1 ''/shoes'' []
      # [CategoryTreeResponse 2 ''/Shoes'' [CategoryTreeResponse 3 ''/Shoes/sneakers'' []]])
     [''shoes'', ''sneakers''] 0 = Inr None
   \<and> findCategoryInTree (asciiHost (\<lambda>s. s) (\<lambda>s. s))
     [CategoryTreeResponse 2 ''/Shoes'' [CategoryTreeResponse 3 ''/Shoes/sneakers'' []]]
     [''shoes'', ''sneakers''] 0 = Inr (Some (CategoryTreeResponse 3 ''/Shoes/sneakers'' []))"
proof -
  let ?ext = "asciiHost (\<lambda>s. s) (\<lambda>s. s)"
  have len: "0 < length [''shoes'', ''sneakers'']" by simp
  have "\<not> slugMatches ?ext (CategoryTreeResponse 9 ''/toys'' []) ''shoes''"
    by code_simp
  then have before: "\<forall>n \<in> set [CategoryTreeResponse 9 ''/toys'' []].
      \<not> slugMatches ?ext n ([''shoes'', ''sneakers''] ! 0)"
    by simp
  have first: "slugMatches ?ext (CategoryTreeResponse 1 ''/shoes'' [])
      ([''shoes'', ''sneakers''] ! 0)"
    by code_simp
  have later: "findCategoryInTree ?ext
     [CategoryTreeResponse 2 ''/Shoes'' [CategoryTreeResponse 3 ''/Shoes/sneakers'' []]]
     [''shoes'', ''sneakers''] 0 = Inr (Some (CategoryTreeResponse 3 ''/Shoes/sneakers'' []))"
    by code_simp
  have "findCategoryInTree ?ext
     ([CategoryTreeResponse 9 ''/toys'' []]
      @ CategoryTreeResponse 1 ''/shoes'' []
      # [CategoryTreeResponse 2 ''/Shoes'' [CategoryTreeResponse 3 ''/Shoes/sneakers'' []]])
     [''shoes'', ''sneakers''] 0 = Inr None"
    using findCategoryInTree_no_backtracking [OF len before first,
      of "[CategoryTreeResponse 2 ''/Shoes'' [CategoryTreeResponse 3 ''/Shoes/sneakers'' []]]"]
    by simp
  then show ?thesis using later by blast
qed

section \<open>Properties of the identifier map\<close>

lemma foldl_appendToMap:
  "foldl appendToMap m tree = m ++ map_of (rev (map (\<lambda>n. (id_cat n, n)) (preorder tree)))"
proof (induction tree arbitrary: m rule: preorder.induct)
  case 1
  show ?case by simp
next
  case (2 node rest)
  have "foldl appendToMap m (node # rest) =
        foldl appendToMap (foldl appendToMap (m(id_cat node \<mapsto> node)) (children node)) rest"
    by simp
  also have "\<dots> = (m(id_cat node \<mapsto> node)
                     ++ map_of (rev (map (\<lambda>n. (id_cat n, n)) (preorder (children node)))))
                   ++ map_of (rev (map (\<lambda>n. (id_cat n, n)) (preorder rest)))"
    by (simp only: 2)
  also have "\<dots> = m ++ map_of (rev (map (\<lambda>n. (id_cat n, n)) (preorder (node # rest))))"
    by simp
  finally show ?case .
qed

lemma dom_foldl_appendToMap:
  "dom (foldl appendToMap Map.empty tree) = id_cat ` set (preorder tree)"
  by (simp add: foldl_appendToMap dom_map_of_conv_image_fst image_image)

lemma foldl_appendToMap_last:
  assumes "preorder tree = before @ node # after"
    and "id_cat node \<notin> id_cat ` set after"
  shows "foldl appendToMap Map.empty tree (id_cat node) = Some node"
proof -
  have "map_of (rev (map (\<lambda>n. (id_cat n, n)) after)) (id_cat node) = None"
    using assms(2) by (simp add: map_of_eq_None_iff image_image)
  then show ?thesis
    by (simp add: foldl_appendToMap assms(1) map_add_def)
qed

section \<open>The claims about the identifier map\<close>

text \<open>
  Claim C4. The keys of \<open>buildCategoryMap\<close> of a tree are exactly the identifiers of
  the nodes of the tree. The map is filled in depth-first pre-order, and an identifier
  is bound to the last node of that order that has it: when two nodes share an
  identifier, the one visited later is kept. The empty tree gives the empty map.
\<close>

theorem buildCategoryMap_keys_last_wins:
  "dom (buildCategoryMap tree) = id_cat ` set (preorder tree)
   \<and> (\<forall>before node after.
         preorder tree = before @ node # after \<and> id_cat node \<notin> id_cat ` set after
         \<longrightarrow> buildCategoryMap tree (id_cat node) = Some node)
   \<and> buildCategoryMap [] = Map.empty"
  unfolding buildCategoryMap_def
  using dom_foldl_appendToMap [of tree] foldl_appendToMap_last [of tree]
  by simp

text \<open>
  The example of the specification: the root \<open>A\<close> and its child \<open>B\<close> both have the
  identifier 1, and the map binds 1 to \<open>B\<close>.
\<close>

theorem buildCategoryMap_keys_last_wins_witness:
  "preorder [CategoryTreeResponse 1 ''/a'' [CategoryTreeResponse 1 ''/a/b'' []]]
     = [CategoryTreeResponse 1 ''/a'' [CategoryTreeResponse 1 ''/a/b'' []]]
       @ CategoryTreeResponse 1 ''/a/b'' [] # []
   \<and> buildCategoryMap
     [CategoryTreeResponse 1 ''/a'' [CategoryTreeResponse 1 ''/a/b'' []]] 1
     = Some (CategoryTreeResponse 1 ''/a/b'' [])
   \<and> dom (buildCategoryMap
     [CategoryTreeResponse 1 ''/a'' [CategoryTreeResponse 1 ''/a/b'' []]]) = {1}"
proof -
  let ?B = "CategoryTreeResponse 1 ''/a/b'' []"
  let ?A = "CategoryTreeResponse 1 ''/a'' [?B]"
  have order: "preorder [?A] = [?A] @ ?B # []" by simp
  have last: "id_cat ?B \<notin> id_cat ` set []" by simp
  from buildCategoryMap_keys_last_wins [of "[?A]"] order last
  have "buildCategoryMap [?A] (id_cat ?B) = Some ?B"
    and "dom (buildCategoryMap [?A]) = id_cat ` set (preorder [?A])"
    by blast+
  with order show ?thesis by simp
qed

text \<open>
  Claim C10. When the tree is fetched and no node of it has the identifier asked for,
  \<open>getCategoryInfo\<close> returns the object \<open>{ url: '' }\<close>: not \<open>null\<close>, and not an error.
\<close>

theorem getCategoryInfo_unknown_id:
  assumes "search_categories search levels = Inr categories"
    and "ident \<notin> id_cat ` set (preorder categories)"
  shows "getCategoryInfo search ident levels = ([CategoriesCall levels], Inr (UrlOnly ''''))"
proof -
  from assms(2) have "foldl appendToMap Map.empty categories ident = None"
    using dom_foldl_appendToMap [of categories] by blast
  with assms(1) show ?thesis by (simp add: getCategoryInfo_def)
qed

theorem getCategoryInfo_unknown_id_witness:
  "(5::int) \<notin> id_cat ` set (preorder
       [CategoryTreeResponse 1 ''/shoes'' [CategoryTreeResponse 2 ''/shoes/sneakers'' []]])
   \<and> getCategoryInfo
     \<lparr>search_pageType = (\<lambda>u. Inr None),
      search_categories = (\<lambda>l. Inr
        [CategoryTreeResponse 1 ''/shoes'' [CategoryTreeResponse 2 ''/shoes/sneakers'' []]])\<rparr>
     5 3 = ([CategoriesCall 3], Inr (UrlOnly ''''))"
proof -
  let ?tree = "[CategoryTreeResponse 1 ''/shoes'' [CategoryTreeResponse 2 ''/shoes/sneakers'' []]]"
  let ?search = "\<lparr>search_pageType = (\<lambda>u. Inr None), search_categories = (\<lambda>l. Inr ?tree)\<rparr>"
  have fetched: "search_categories ?search 3 = Inr ?tree" by simp
  have unknown: "(5::int) \<notin> id_cat ` set (preorder ?tree)" by simp
  from getCategoryInfo_unknown_id [OF fetched unknown] unknown show ?thesis by simp
qed

section \<open>Properties of the tree lookup\<close>

text \<open>The only event of \<open>getIdFromTree\<close> is the request of the tree.\<close>

lemma getIdFromTree_events:
  "e \<in> set (fst (getIdFromTree ext args search)) \<Longrightarrow> e = CategoriesCall 3"
  by (auto simp: getIdFromTree_def Let_def split: if_splits sum.splits)




section \<open>The claims about the resolver\<close>

text \<open>
  Claim C5. In classification mode (\<open>isVtex\<close>), when \<open>search.pageType\<close> answers the
  constructed path with a result whose label is one of Department, Category and
  SubCategory, \<open>searchContextGetCategory\<close> returns the identifier of that result. The
  request to \<open>search.pageType\<close> is its only event: the category tree is not fetched and
  nothing is searched.
\<close>

theorem searchContextGetCategory_trusted:
  assumes "truthy (department args) \<or> truthy (category args) \<or> truthy (subcategory args)"
    and "search_pageType search (categoryUrl ext args) = Inr (Some p)"
    and "pageType p \<in> set typesPossible"
  shows "searchContextGetCategory ext args search True =
           ([PageTypeCall (categoryUrl ext args)], Inr (Some (id_page p)))"
  using assms by (auto simp: searchContextGetCategory_def)

text \<open>
  The example of the specification: the classification answers identifier 42 with the
  label Category, and 42 is returned although the tree fetch would fail.
\<close>

theorem searchContextGetCategory_trusted_witness:
  "searchContextGetCategory
     (asciiHost (\<lambda>s. s) (\<lambda>s. s))
     \<lparr>department = Some ''shoes'', category = Some ''sneakers'', subcategory = None\<rparr>
     \<lparr>search_pageType = (\<lambda>u. Inr (Some \<lparr>id_page = 42, pageType = ''Category''\<rparr>)),
      search_categories = (\<lambda>l. Inl (BackendError ''unavailable''))\<rparr>
     True
   = ([PageTypeCall ''shoes/sneakers''], Inr (Some 42))"
proof -
  let ?ext = "asciiHost (\<lambda>s. s) (\<lambda>s. s)"
  let ?args = "\<lparr>department = Some ''shoes'', category = Some ''sneakers'', subcategory = None\<rparr>"
  let ?p = "\<lparr>id_page = 42, pageType = ''Category''\<rparr>"
  let ?search = "\<lparr>search_pageType = (\<lambda>u. Inr (Some ?p)),
      search_categories = (\<lambda>l. Inl (BackendError ''unavailable''))\<rparr>"
  have segments: "truthy (department ?args) \<or> truthy (category ?args) \<or> truthy (subcategory ?args)"
    by (simp add: truthy_def)
  have answer: "search_pageType ?search (categoryUrl ?ext ?args) = Inr (Some ?p)"
    by simp
  have trusted: "pageType ?p \<in> set typesPossible"
    by (simp add: typesPossible_def)
  have path: "categoryUrl ?ext ?args = ''shoes/sneakers''"
    by (simp add: categoryUrl_def truthy_def asciiHost_def)
  from searchContextGetCategory_trusted [OF segments answer trusted] path
  show ?thesis by simp
qed

text \<open>
  Claim C6, as amended. In classification mode, when \<open>search.pageType\<close> answers with a
  result whose label is not one of the three trusted labels,
  \<open>searchContextGetCategory\<close> ignores the identifier of that result and returns what
  \<open>getIdFromTree\<close> returns for the same arguments; nothing is given to the logger.
\<close>

theorem searchContextGetCategory_untrusted:
  assumes "truthy (department args) \<or> truthy (category args) \<or> truthy (subcategory args)"
    and "search_pageType search (categoryUrl ext args) = Inr (Some p)"
    and "pageType p \<notin> set typesPossible"
  shows "searchContextGetCategory ext args search True =
           (PageTypeCall (categoryUrl ext args) # fst (getIdFromTree ext args search),
            snd (getIdFromTree ext args search))
       \<and> LoggerInfo u a n \<notin> set (fst (searchContextGetCategory ext args search True))"
proof -
  have eq: "searchContextGetCategory ext args search True =
           (PageTypeCall (categoryUrl ext args) # fst (getIdFromTree ext args search),
            snd (getIdFromTree ext args search))"
    using assms by (auto simp: searchContextGetCategory_def Let_def case_prod_beta)
  moreover have "LoggerInfo u a n \<notin> set (fst (getIdFromTree ext args search))"
    using getIdFromTree_events by blast
  ultimately show ?thesis by simp
qed

theorem searchContextGetCategory_untrusted_witness:
  "searchContextGetCategory
     (asciiHost (\<lambda>s. s) (\<lambda>s. s))
     \<lparr>department = Some ''shoes'', category = None, subcategory = None\<rparr>
     \<lparr>search_pageType = (\<lambda>u. Inr (Some \<lparr>id_page = 99, pageType = ''Search''\<rparr>)),
      search_categories = (\<lambda>l. Inr [CategoryTreeResponse 7 ''/shoes'' []])\<rparr>
     True
   = ([PageTypeCall ''shoes'', CategoriesCall 3], Inr (Some 7))"
proof -
  let ?ext = "asciiHost (\<lambda>s. s) (\<lambda>s. s)"
  let ?args = "\<lparr>department = Some ''shoes'', category = None, subcategory = None\<rparr>"
  let ?p = "\<lparr>id_page = 99, pageType = ''Search''\<rparr>"
  let ?search = "\<lparr>search_pageType = (\<lambda>u. Inr (Some ?p)),
      search_categories = (\<lambda>l. Inr [CategoryTreeResponse 7 ''/shoes'' []])\<rparr>"
  have segments: "truthy (department ?args) \<or> truthy (category ?args) \<or> truthy (subcategory ?args)"
    by (simp add: truthy_def)
  have answer: "search_pageType ?search (categoryUrl ?ext ?args) = Inr (Some ?p)"
    by simp
  have untrusted: "pageType ?p \<notin> set typesPossible"
    by (simp add: typesPossible_def)
  have path: "categoryUrl ?ext ?args = ''shoes''"
    by (simp add: categoryUrl_def truthy_def asciiHost_def)
  have tree: "getIdFromTree ?ext ?args ?search = ([CategoriesCall 3], Inr (Some 7))"
    by code_simp
  from searchContextGetCategory_untrusted [OF segments answer untrusted] path tree
  show ?thesis by simp
qed

text \<open>
  Claim C6 as it is written fails: the answer 99 with the label FullText is not trusted,
  the tree is asked, and the events of the call are the two requests. No event is logged.
\<close>

theorem searchContextGetCategory_untrusted_log_counterexample:
  "searchContextGetCategory
     (asciiHost (\<lambda>s. s) (\<lambda>s. s))
     \<lparr>department = Some ''shoes'', category = None, subcategory = None\<rparr>
     \<lparr>search_pageType = (\<lambda>u. Inr (Some \<lparr>id_page = 99, pageType = ''FullText''\<rparr>)),
      search_categories = (\<lambda>l. Inr [CategoryTreeResponse 7 ''/shoes'' []])\<rparr>
     True
   = ([PageTypeCall ''shoes'', CategoriesCall 3], Inr (Some 7))"
  by code_simp

text \<open>
  Claim C7. In classification mode, when \<open>search.pageType\<close> is rejected or resolves to
  nothing, the rejection is not the result of \<open>searchContextGetCategory\<close>: the event
  \<open>pagetype-category-error\<close> is logged with the path and the arguments, and the events
  and the result that follow are those of \<open>getIdFromTree\<close> on the original arguments.
\<close>

theorem searchContextGetCategory_unavailable:
  assumes "truthy (department args) \<or> truthy (category args) \<or> truthy (subcategory args)"
    and "search_pageType search (categoryUrl ext args) = Inl e
         \<or> search_pageType search (categoryUrl ext args) = Inr None"
  shows "searchContextGetCategory ext args search True =
           (PageTypeCall (categoryUrl ext args)
              # LoggerInfo (categoryUrl ext args) args ''pagetype-category-error''
              # fst (getIdFromTree ext args search),
            snd (getIdFromTree ext args search))"
  using assms by (auto simp: searchContextGetCategory_def Let_def case_prod_beta)

theorem searchContextGetCategory_unavailable_witness:
  "searchContextGetCategory
     (asciiHost (\<lambda>s. s) (\<lambda>s. s))
     \<lparr>department = Some ''shoes'', category = None, subcategory = None\<rparr>
     \<lparr>search_pageType = (\<lambda>u. Inl (BackendError ''timeout'')),
      search_categories = (\<lambda>l. Inr [CategoryTreeResponse 7 ''/shoes'' []])\<rparr>
     True
   = ([PageTypeCall ''shoes'',
       LoggerInfo ''shoes''
         \<lparr>department = Some ''shoes'', category = None, subcategory = None\<rparr>
         ''pagetype-category-error'',
       CategoriesCall 3],
      Inr (Some 7))"
proof -
  let ?ext = "asciiHost (\<lambda>s. s) (\<lambda>s. s)"
  let ?args = "\<lparr>department = Some ''shoes'', category = None, subcategory = None\<rparr>"
  let ?search = "\<lparr>search_pageType = (\<lambda>u. Inl (BackendError ''timeout'')),
      search_categories = (\<lambda>l. Inr [CategoryTreeResponse 7 ''/shoes'' []])\<rparr>"
  have segments: "truthy (department ?args) \<or> truthy (category ?args) \<or> truthy (subcategory ?args)"
    by (simp add: truthy_def)
  have rejected: "search_pageType ?search (categoryUrl ?ext ?args) = Inl (BackendError ''timeout'')
      \<or> search_pageType ?search (categoryUrl ?ext ?args) = Inr None"
    by simp
  have path: "categoryUrl ?ext ?args = ''shoes''"
    by (simp add: categoryUrl_def truthy_def asciiHost_def)
  have tree: "getIdFromTree ?ext ?args ?search = ([CategoriesCall 3], Inr (Some 7))"
    by code_simp
  from searchContextGetCategory_unavailable [OF segments rejected] path tree
  show ?thesis by simp
qed

text \<open>
  Claim C9. In classification mode, when none of department, category and subcategory
  is given (or each one given is the empty string), \<open>searchContextGetCategory\<close> returns
  \<open>null\<close> and has no event: neither the classification nor the tree is requested.
\<close>

theorem searchContextGetCategory_empty_args:
  assumes "\<not> truthy (department args)" and "\<not> truthy (category args)"
    and "\<not> truthy (subcategory args)"
  shows "searchContextGetCategory ext args search True = ([], Inr None)"
  using assms by (simp add: searchContextGetCategory_def)

theorem searchContextGetCategory_empty_args_witness:
  "searchContextGetCategory
     (asciiHost (\<lambda>s. s) (\<lambda>s. s))
     \<lparr>department = None, category = None, subcategory = None\<rparr>
     \<lparr>search_pageType = (\<lambda>u. Inl (BackendError ''unavailable'')),
      search_categories = (\<lambda>l. Inl (BackendError ''unavailable''))\<rparr>
     True
   = ([], Inr None)"
proof -
  let ?args = "\<lparr>department = None, category = None, subcategory = None\<rparr>"
  have "\<not> truthy (department ?args)" and "\<not> truthy (category ?args)"
    and "\<not> truthy (subcategory ?args)"
    by (simp_all add: truthy_def)
  then show ?thesis by (rule searchContextGetCategory_empty_args)
qed

section \<open>The claim about getIdFromTree\<close>




end
